theory Spec2Isabelle
  imports Main "HOL-Library.AList" "HOL-Library.List_Lexorder"
begin

section \<open>Python values used by the changelog builder\<close>

text \<open>
  The module \<^verbatim>\<open>releases/__init__.py\<close> walks the bullet list of a changelog document,
  partitions issues into releases (\<^verbatim>\<open>construct_releases\<close>) and builds the nodes that
  replace the list (\<^verbatim>\<open>construct_nodes\<close>). Exceptions of the Python code are values
  of the type below; a function that can raise returns \<open>error + 'a\<close>.
\<close>

datatype error =
    ValueError string
  | KeyError string
  | TypeError
  | AttributeError
  | IndexError

subsection \<open>Strings\<close>

text \<open>
  A string is the list of its code points; the model covers the strings whose code points
  are below 256, one \<^typ>\<open>char\<close> for each code point.
\<close>

text \<open>\<^verbatim>\<open>s.split(c)\<close> for a one-character separator: never empty.\<close>

fun split :: "char \<Rightarrow> string \<Rightarrow> string list" where
  "split c [] = [[]]"
| "split c (x # xs) =
     (if x = c then [] # split c xs
      else (case split c xs of [] \<Rightarrow> [[x]] | y # ys \<Rightarrow> (x # y) # ys))"

text \<open>\<^verbatim>\<open>sep.join(parts)\<close>.\<close>

fun join :: "string \<Rightarrow> string list \<Rightarrow> string" where
  "join sep [] = []"
| "join sep [x] = x"
| "join sep (x # y # ys) = x @ sep @ join sep (y # ys)"

text \<open>
  \<^verbatim>\<open>s.strip()\<close> removes the white space at both ends. Below 256 the white space
  code points of Python are 9 to 13, 28 to 32, 133 (next line) and 160 (no-break space).
\<close>

definition is_space :: "char \<Rightarrow> bool" where
  "is_space c =
     (let n = (of_char c :: nat)
      in (9 \<le> n \<and> n \<le> 13) \<or> (28 \<le> n \<and> n \<le> 32) \<or> n = 133 \<or> n = 160)"

definition strip :: "string \<Rightarrow> string" where
  "strip s = rev (dropWhile is_space (rev (dropWhile is_space s)))"

subsection \<open>\<^verbatim>\<open>distutils.version.LooseVersion\<close>\<close>

text \<open>
  \<^verbatim>\<open>LooseVersion.parse\<close> splits the string with the pattern
  \<^verbatim>\<open>(\d+ | [a-z]+ | \.)\<close>, drops the empty pieces and the dots and turns every piece
  that \<^verbatim>\<open>int\<close> accepts into an integer. The pieces are therefore the maximal runs
  of digits (integers), of lower-case letters, and of any other characters between them.
  Below 256 the only decimal digits are 0 to 9.
\<close>

datatype cclass = Digit | Lower | Dot | Other

definition cclass_of :: "char \<Rightarrow> cclass" where
  "cclass_of c =
     (let n = (of_char c :: nat) in
      if 48 \<le> n \<and> n \<le> 57 then Digit
      else if 97 \<le> n \<and> n \<le> 122 then Lower
      else if n = 46 then Dot
      else Other)"

fun pieces :: "string \<Rightarrow> (cclass \<times> string) list" where
  "pieces [] = []"
| "pieces (c # cs) =
     (case pieces cs of
        [] \<Rightarrow> [(cclass_of c, [c])]
      | (k, r) # rest \<Rightarrow>
          if k = cclass_of c \<and> k \<noteq> Dot then (k, c # r) # rest
          else (cclass_of c, [c]) # (k, r) # rest)"

datatype component = CInt nat | CStr string

definition int_of_digits :: "string \<Rightarrow> nat" where
  "int_of_digits ds = foldl (\<lambda>a c. 10 * a + (of_char c - 48)) 0 ds"

definition parse :: "string \<Rightarrow> component list" where
  "parse vstring =
     map (\<lambda>(k, r). if k = Digit then CInt (int_of_digits r) else CStr r)
       (filter (\<lambda>(k, r). k \<noteq> Dot) (pieces vstring))"

text \<open>
  Comparison of two version lists as Python 3 compares lists: the first position where
  the lists differ decides; there an integer against a string raises \<^verbatim>\<open>TypeError\<close>;
  a proper prefix is smaller. Strings compare by code point.
\<close>

datatype ordering = LT | EQ | GT

fun str_cmp :: "string \<Rightarrow> string \<Rightarrow> ordering" where
  "str_cmp [] [] = EQ"
| "str_cmp [] (y # ys) = LT"
| "str_cmp (x # xs) [] = GT"
| "str_cmp (x # xs) (y # ys) =
     (if x = y then str_cmp xs ys
      else if (of_char x :: nat) < of_char y then LT else GT)"

fun version_cmp :: "component list \<Rightarrow> component list \<Rightarrow> error + ordering" where
  "version_cmp [] [] = Inr EQ"
| "version_cmp [] (y # ys) = Inr LT"
| "version_cmp (x # xs) [] = Inr GT"
| "version_cmp (x # xs) (y # ys) =
     (if x = y then version_cmp xs ys
      else (case (x, y) of
              (CInt a, CInt b) \<Rightarrow> Inr (if a < b then LT else GT)
            | (CStr a, CStr b) \<Rightarrow> Inr (str_cmp a b)
            | _ \<Rightarrow> Inl TypeError))"

text \<open>
  \<^verbatim>\<open>LooseVersion(a) >= LooseVersion(b)\<close>. The constructor parses only a string that
  is not empty, so the comparison finds no \<^verbatim>\<open>version\<close> attribute on the version of
  an empty string.
\<close>

definition LooseVersion_ge :: "string \<Rightarrow> string \<Rightarrow> error + bool" where
  "LooseVersion_ge a b =
     (if a = [] \<or> b = [] then Inl AttributeError
      else (case version_cmp (parse a) (parse b) of
              Inl e \<Rightarrow> Inl e
            | Inr c \<Rightarrow> Inr (c \<noteq> LT)))"

section \<open>Document nodes\<close>

text \<open>
  The docutils nodes the module handles: text, generic elements (tag name, attributes,
  children) and the two intermediate elements it declares, \<^verbatim>\<open>issue\<close> and
  \<^verbatim>\<open>release\<close>, with the attributes their properties read and their children.
  An issue carries no \<^verbatim>\<open>description\<close> until \<^verbatim>\<open>construct_releases\<close> stores one.
\<close>

datatype itype = Bug | Feature | Support

datatype node =
    Text string
  | Elem string "(string \<times> string) list" "node list"
  | IssueN issue "node list"
  | ReleaseN release "node list"
and issue =
  Issue (number: "string option") (type: itype) (nodelist: "node list")
        (backported: bool) (major: bool) (line: "string option")
        (description: "node list option")
and release =
  Release (release_number: string) (date: "string option") (release_nodelist: "node list")

text \<open>
  The configuration values are format strings applied with \<^verbatim>\<open>%\<close>; the model takes
  the application \<^verbatim>\<open>config.releases_release_uri % slug\<close> as a function.
\<close>

record config =
  releases_release_uri :: "string \<Rightarrow> string"

definition issue_color :: "itype \<Rightarrow> string" where
  "issue_color t = (case t of Bug \<Rightarrow> ''A04040'' | Feature \<Rightarrow> ''40A056'' | Support \<Rightarrow> ''4070A0'')"

definition capitalize :: "itype \<Rightarrow> string" where
  "capitalize t = (case t of Bug \<Rightarrow> ''Bug'' | Feature \<Rightarrow> ''Feature'' | Support \<Rightarrow> ''Support'')"

definition inline :: "string \<Rightarrow> node" where
  "inline t = Elem ''inline'' [] [Text t]"

definition issue_nodelist :: "itype \<Rightarrow> node option \<Rightarrow> node list" where
  \<open>issue_nodelist name link =
     (let which = ''[<span style="color: #'' @ issue_color name @ '';">'' @ capitalize name
                  @ ''</span>]'';
          signifier = [Elem ''raw'' [(''format'', ''html'')] [Text which]];
          hyperlink = (case link of Some l \<Rightarrow> [inline '' '', l] | None \<Rightarrow> []);
          trail = (case link of Some l \<Rightarrow> [] | None \<Rightarrow> [inline '' ''])
      in signifier @ hyperlink @ [inline '':''] @ trail)\<close>

definition release_nodes :: "string \<Rightarrow> string \<Rightarrow> string option \<Rightarrow> config \<Rightarrow> node" where
  \<open>release_nodes text slug dt cfg =
     (let link = ''<a class="reference external" href="'' @ releases_release_uri cfg slug
                 @ ''">'' @ text @ ''</a>'';
          datespan = (case dt of
                        None \<Rightarrow> []
                      | Some d \<Rightarrow> if d = [] then []
                                  else '' <span style="font-size: 75%%;">'' @ d @ ''</span>'');
          header = ''<h2 style="margin-bottom: 0.3em;">'' @ link @ datespan @ ''</h2>''
      in Elem ''section'' [(''ids'', text)]
           [Elem ''raw'' [(''rawtext'', []), (''format'', ''html'')] [Text header]])\<close>

text \<open>\<^verbatim>\<open>get_line\<close>: the version without its last dotted component.\<close>

definition get_line :: "release \<Rightarrow> string" where
  "get_line obj = join ''.'' (butlast (split CHR ''.'' (release_number obj)))"

section \<open>The partitioner state\<close>

text \<open>
  docutils elements define no equality, so \<^verbatim>\<open>x in bucket\<close> and
  \<^verbatim>\<open>bucket.remove(x)\<close> compare object identities. A reference to an issue object
  is the pair of its identity and its value; the identity of the issue made for a
  changelog entry is the position of that entry in the chronological walk. The
  dictionaries \<^verbatim>\<open>lines\<close> and \<^verbatim>\<open>issues\<close> are association lists in insertion
  order; a release is the dictionary with the keys \<^verbatim>\<open>obj\<close> and \<^verbatim>\<open>entries\<close>.
\<close>

type_synonym issue_ref = "nat \<times> issue"

type_synonym buckets = "(string \<times> issue_ref list) list"

record release_dict =
  obj :: release
  entries :: "issue_ref list"

record state =
  releases :: "release_dict list"
  lines :: buckets
  issues :: "(string option \<times> issue_ref) list"

definition initial_state :: state where
  "initial_state =
     \<lparr>releases = [], lines = [(''unreleased_bugfix'', []), (''unreleased_feature'', [])],
      issues = []\<rparr>"

text \<open>\<^verbatim>\<open>d[k]\<close> on a dictionary: \<^verbatim>\<open>KeyError\<close> when the key is absent.\<close>

definition getitem :: "(string \<times> 'v) list \<Rightarrow> string \<Rightarrow> error + 'v" where
  "getitem d k = (case map_of d k of None \<Rightarrow> Inl (KeyError k) | Some v \<Rightarrow> Inr v)"

text \<open>\<^verbatim>\<open>x in xs\<close> and \<^verbatim>\<open>xs.remove(x)\<close> on a list of issue objects.\<close>

definition contains :: "issue_ref \<Rightarrow> issue_ref list \<Rightarrow> bool" where
  "contains x xs = (fst x \<in> set (map fst xs))"

fun list_remove :: "issue_ref \<Rightarrow> issue_ref list \<Rightarrow> error + issue_ref list" where
  "list_remove x [] = Inl (ValueError ''list.remove(x): x not in list'')"
| "list_remove x (y # ys) =
     (if fst y = fst x then Inr ys
      else (case list_remove x ys of Inl e \<Rightarrow> Inl e | Inr r \<Rightarrow> Inr (y # r)))"

text \<open>\<^verbatim>\<open>lines[k].append(x)\<close> and \<^verbatim>\<open>lines[k].remove(x)\<close>.\<close>

definition append_to :: "string \<Rightarrow> issue_ref \<Rightarrow> buckets \<Rightarrow> error + buckets" where
  "append_to k x ls =
     (case getitem ls k of Inl e \<Rightarrow> Inl e | Inr b \<Rightarrow> Inr (AList.update k (b @ [x]) ls))"

definition remove_from :: "string \<Rightarrow> issue_ref \<Rightarrow> buckets \<Rightarrow> error + buckets" where
  "remove_from k x ls =
     (case getitem ls k of
        Inl e \<Rightarrow> Inl e
      | Inr b \<Rightarrow> (case list_remove x b of
                   Inl e \<Rightarrow> Inl e
                 | Inr b' \<Rightarrow> Inr (AList.update k b' ls)))"

text \<open>\<^verbatim>\<open>for line in names: lines[line].append(focus)\<close>.\<close>

fun append_all :: "string list \<Rightarrow> issue_ref \<Rightarrow> buckets \<Rightarrow> error + buckets" where
  "append_all [] x ls = Inr ls"
| "append_all (k # ks) x ls =
     (case append_to k x ls of Inl e \<Rightarrow> Inl e | Inr ls' \<Rightarrow> append_all ks x ls')"

section \<open>\<^verbatim>\<open>construct_releases\<close>\<close>

subsection \<open>Issue entries\<close>

text \<open>
  The bug lines of an issue with a minimum line: the names other than
  \<^verbatim>\<open>unreleased_bugfix\<close> whose \<^verbatim>\<open>LooseVersion\<close> is at least the minimum; the
  comparison is not evaluated for \<^verbatim>\<open>unreleased_bugfix\<close> and may raise for another name.
\<close>

fun min_line_filter :: "string \<Rightarrow> string list \<Rightarrow> error + string list" where
  "min_line_filter m [] = Inr []"
| "min_line_filter m (x # xs) =
     (if x = ''unreleased_bugfix'' then min_line_filter m xs
      else (case LooseVersion_ge x m of
              Inl e \<Rightarrow> Inl e
            | Inr keep \<Rightarrow>
                (case min_line_filter m xs of
                   Inl e \<Rightarrow> Inl e
                 | Inr r \<Rightarrow> Inr (if keep then x # r else r))))"

definition bug_lines :: "issue \<Rightarrow> buckets \<Rightarrow> error + string list" where
  "bug_lines focus ls =
     (let names = filter (\<lambda>x. x \<noteq> ''unreleased_feature'') (map fst ls) in
      case line focus of
        None \<Rightarrow> Inr names
      | Some m \<Rightarrow>
          if m = [] then Inr names
          else (case min_line_filter m names of
                  Inl e \<Rightarrow> Inl e
                | Inr r \<Rightarrow> Inr (r @ [''unreleased_bugfix''])))"

text \<open>The buckets an issue is copied into (source lines 312 to 344).\<close>

definition fan_out :: "issue_ref \<Rightarrow> buckets \<Rightarrow> error + buckets" where
  "fan_out focus ls =
     (if type (snd focus) = Bug then
        (if major (snd focus) then append_to ''unreleased_feature'' focus ls
         else (case bug_lines (snd focus) ls of
                 Inl e \<Rightarrow> Inl e
               | Inr names \<Rightarrow> append_all names focus ls))
      else
        (if backported (snd focus) then append_all (map fst ls) focus ls
         else append_to ''unreleased_feature'' focus ls))"

text \<open>
  Registration in \<^verbatim>\<open>issues\<close> (a number that is \<^verbatim>\<open>None\<close> or empty is never a
  duplicate), then the copy into the buckets.
\<close>

definition add_issue :: "state \<Rightarrow> issue_ref \<Rightarrow> error + state" where
  "add_issue s focus =
     (let n = number (snd focus) in
      if (case n of None \<Rightarrow> False | Some t \<Rightarrow> t \<noteq> [] \<and> map_of (issues s) n \<noteq> None)
      then Inl (ValueError (''You seem to have defined issue #'' @ the n
                  @ '' twice! Please double check.''))
      else (case fan_out focus (lines s) of
              Inl e \<Rightarrow> Inl e
            | Inr ls \<Rightarrow> Inr (s\<lparr>lines := ls, issues := AList.update n focus (issues s)\<rparr>)))"

subsection \<open>Release entries\<close>

text \<open>
  The text after a release is empty or a comma-separated list of issue numbers:
  \<^verbatim>\<open>[x.strip() for x in rest[0].split(',')]\<close>; only a text node has \<^verbatim>\<open>split\<close>.
\<close>

definition explicit_issues :: "node list \<Rightarrow> error + string list option" where
  "explicit_issues rest =
     (case rest of
        [] \<Rightarrow> Inr None
      | Text t # _ \<Rightarrow> Inr (Some (map strip (split CHR '','' t)))
      | _ # _ \<Rightarrow> Inl AttributeError)"

text \<open>The removal of one explicitly released issue from its buckets (lines 221 to 242).\<close>

definition cleanup_explicit :: "string \<Rightarrow> issue_ref \<Rightarrow> buckets \<Rightarrow> error + buckets" where
  "cleanup_explicit ln x ls =
     (if type (snd x) = Bug then
        (if major (snd x) then remove_from ''unreleased_feature'' x ls
         else
           (case getitem ls ''unreleased_bugfix'' of
              Inl e \<Rightarrow> Inl e
            | Inr ub \<Rightarrow>
                (case (if contains x ub then remove_from ''unreleased_bugfix'' x ls else Inr ls) of
                   Inl e \<Rightarrow> Inl e
                 | Inr ls1 \<Rightarrow>
                     (case getitem ls1 ln of
                        Inl e \<Rightarrow> Inl e
                      | Inr b \<Rightarrow> if contains x b then remove_from ln x ls1 else Inr ls1))))
      else
        (case remove_from ''unreleased_feature'' x ls of
           Inl e \<Rightarrow> Inl e
         | Inr ls1 \<Rightarrow>
             if contains x (case map_of ls1 ln of None \<Rightarrow> [] | Some b \<Rightarrow> b)
             then remove_from ln x ls1 else Inr ls1))"

fun cleanup_all :: "string \<Rightarrow> issue_ref list \<Rightarrow> buckets \<Rightarrow> error + buckets" where
  "cleanup_all ln [] ls = Inr ls"
| "cleanup_all ln (x # xs) ls =
     (case cleanup_explicit ln x ls of Inl e \<Rightarrow> Inl e | Inr ls' \<Rightarrow> cleanup_all ln xs ls')"

definition explicit_release :: "state \<Rightarrow> release \<Rightarrow> string \<Rightarrow> string list \<Rightarrow> error + state" where
  "explicit_release s focus ln explicit =
     (let missing = filter (\<lambda>i. map_of (issues s) (Some i) = None) explicit in
      if missing \<noteq> []
      then Inl (ValueError (''Couldn't find issue(s) #'' @ join '', '' missing
                  @ '' in the changelog!''))
      else
        (let ents = map (\<lambda>i. the (map_of (issues s) (Some i))) explicit in
         case cleanup_all ln ents (lines s) of
           Inl e \<Rightarrow> Inl e
         | Inr ls \<Rightarrow>
             Inr (s\<lparr>releases := releases s @ [\<lparr>obj = focus, entries = ents\<rparr>], lines := ls\<rparr>)))"

text \<open>
  The removal of the entries of a bugfix release from \<^verbatim>\<open>unreleased_bugfix\<close>
  (lines 277 to 279).
\<close>

fun cleanup_bugfix :: "issue_ref list \<Rightarrow> buckets \<Rightarrow> error + buckets" where
  "cleanup_bugfix [] ls = Inr ls"
| "cleanup_bugfix (x # xs) ls =
     (case getitem ls ''unreleased_bugfix'' of
        Inl e \<Rightarrow> Inl e
      | Inr ub \<Rightarrow>
          (case (if contains x ub then remove_from ''unreleased_bugfix'' x ls else Inr ls) of
             Inl e \<Rightarrow> Inl e
           | Inr ls' \<Rightarrow> cleanup_bugfix xs ls'))"

definition implicit_release :: "state \<Rightarrow> release \<Rightarrow> string \<Rightarrow> error + state" where
  "implicit_release s focus ln =
     (if map_of (lines s) ln = None then
        (let ls1 = AList.update ln [] (lines s) in
         case getitem ls1 ''unreleased_feature'' of
           Inl e \<Rightarrow> Inl e
         | Inr uf \<Rightarrow>
             Inr (s\<lparr>releases := releases s @
                      [\<lparr>obj = focus,
                        entries = filter (\<lambda>x. type (snd x) \<in> {Feature, Support} \<or> major (snd x)) uf\<rparr>],
                    lines := AList.update ''unreleased_feature'' [] ls1\<rparr>))
      else
        (case getitem (lines s) ln of
           Inl e \<Rightarrow> Inl e
         | Inr b \<Rightarrow>
             (let ents = filter (\<lambda>x. \<not> major (snd x)) b in
              case cleanup_bugfix ents (AList.update ln [] (lines s)) of
                Inl e \<Rightarrow> Inl e
              | Inr ls \<Rightarrow>
                  Inr (s\<lparr>releases := releases s @ [\<lparr>obj = focus, entries = ents\<rparr>],
                         lines := ls\<rparr>))))"

definition process_release :: "state \<Rightarrow> release \<Rightarrow> node list \<Rightarrow> error + state" where
  "process_release s focus rest =
     (let ln = get_line focus in
      case explicit_issues rest of
        Inl e \<Rightarrow> Inl e
      | Inr None \<Rightarrow> implicit_release s focus ln
      | Inr (Some explicit) \<Rightarrow>
          if explicit \<noteq> [] then explicit_release s focus ln explicit
          else implicit_release s focus ln)"

subsection \<open>The walk\<close>

text \<open>
  An entry of the changelog list is a list item around a paragraph; \<^verbatim>\<open>focus\<close> is the
  paragraph's first child and \<^verbatim>\<open>rest\<close> its other children. A focus that is neither
  a release nor an issue becomes a bug that is its own description. The debug log is
  not modelled.
\<close>

type_synonym entry = "node \<times> node list"

definition set_description :: "issue \<Rightarrow> node list \<Rightarrow> issue" where
  "set_description i rest =
     Issue (number i) (type i) (nodelist i) (backported i) (major i) (line i) (Some rest)"

definition process_entry :: "state \<Rightarrow> nat \<times> entry \<Rightarrow> error + state" where
  "process_entry s e =
     (case e of (ident, focus, rest) \<Rightarrow>
        (case focus of
           ReleaseN r _ \<Rightarrow> process_release s r rest
         | IssueN i _ \<Rightarrow> add_issue s (ident, set_description i rest)
         | _ \<Rightarrow> add_issue s
                 (ident, Issue None Bug (issue_nodelist Bug None) False False None (Some [focus]))))"

fun run :: "state \<Rightarrow> (nat \<times> entry) list \<Rightarrow> error + state" where
  "run s [] = Inr s"
| "run s (e # es) = (case process_entry s e of Inl x \<Rightarrow> Inl x | Inr s' \<Rightarrow> run s' es)"

text \<open>The entries in the order of the walk, \<^verbatim>\<open>reversed(entries)\<close>, each with its position.\<close>

definition chronological :: "entry list \<Rightarrow> (nat \<times> entry) list" where
  "chronological es = List.enumerate 0 (rev es)"

text \<open>The release made for what is left in \<^verbatim>\<open>unreleased_bugfix\<close> or \<^verbatim>\<open>unreleased_feature\<close>.\<close>

definition faux_release :: "config \<Rightarrow> string \<Rightarrow> buckets \<Rightarrow> error + release_dict" where
  "faux_release cfg which ls =
     (let nl = [release_nodes (''Next '' @ which @ '' release'') ''master'' None cfg];
          ln = ''unreleased_'' @ which in
      case getitem ls ln of
        Inl e \<Rightarrow> Inl e
      | Inr b \<Rightarrow> Inr \<lparr>obj = Release ln None nl, entries = b\<rparr>)"

definition construct_releases :: "config \<Rightarrow> entry list \<Rightarrow> error + release_dict list" where
  "construct_releases cfg es =
     (case run initial_state (chronological es) of
        Inl e \<Rightarrow> Inl e
      | Inr s \<Rightarrow>
          (case faux_release cfg ''bugfix'' (lines s) of
             Inl e \<Rightarrow> Inl e
           | Inr b \<Rightarrow>
               (case faux_release cfg ''feature'' (lines s) of
                  Inl e \<Rightarrow> Inl e
                | Inr f \<Rightarrow> Inr (releases s @ [b, f]))))"

section \<open>\<^verbatim>\<open>construct_nodes\<close>\<close>

text \<open>
  \<^verbatim>\<open>Node.deepcopy\<close>: a text node is copied; an element is copied with its attributes
  (the attribute values themselves are shared) and deep copies of its children.
\<close>

fun deepcopy :: "node \<Rightarrow> node" where
  "deepcopy (Text t) = Text t"
| "deepcopy (Elem tag attrs cs) = Elem tag attrs (map deepcopy cs)"
| "deepcopy (IssueN i cs) = IssueN i (map deepcopy cs)"
| "deepcopy (ReleaseN r cs) = ReleaseN r (map deepcopy cs)"

text \<open>
  The expansion of the issue roles of a description (lines 384 to 386): the loop
  enumerates a copy of the list and assigns to the slice \<^verbatim>\<open>desc[i:i+1]\<close> of the list
  itself; a slice past the end of a list is empty and at its end.
\<close>

definition expand_at :: "node list \<Rightarrow> nat \<times> node \<Rightarrow> node list" where
  "expand_at desc p =
     (case p of (i, n) \<Rightarrow>
        (case n of
           IssueN x _ \<Rightarrow> take i desc @ nodelist x @ drop (Suc i) desc
         | _ \<Rightarrow> desc))"

definition expand :: "node list \<Rightarrow> node list" where
  "expand desc = foldl expand_at desc (List.enumerate 0 desc)"

text \<open>The list item of one entry of a release (lines 379 to 393).\<close>

definition list_item :: "issue_ref \<Rightarrow> error + node" where
  "list_item entry =
     (case description (snd entry) of
        None \<Rightarrow> Inl (KeyError ''description'')
      | Some d \<Rightarrow>
          Inr (Elem ''list_item'' []
                 [Elem ''paragraph'' [] (nodelist (snd entry) @ expand (map deepcopy d))]))"

fun list_items :: "issue_ref list \<Rightarrow> error + node list" where
  "list_items [] = Inr []"
| "list_items (e # es) =
     (case list_item e of
        Inl x \<Rightarrow> Inl x
      | Inr n \<Rightarrow> (case list_items es of Inl x \<Rightarrow> Inl x | Inr ns \<Rightarrow> Inr (n # ns)))"

text \<open>\<^verbatim>\<open>node.append(child)\<close>: elements have it, text nodes do not.\<close>

definition append_child :: "node \<Rightarrow> node \<Rightarrow> error + node" where
  "append_child n c =
     (case n of
        Text t \<Rightarrow> Inl AttributeError
      | Elem tag attrs cs \<Rightarrow> Inr (Elem tag attrs (cs @ [c]))
      | IssueN i cs \<Rightarrow> Inr (IssueN i (cs @ [c]))
      | ReleaseN r cs \<Rightarrow> Inr (ReleaseN r (cs @ [c])))"

text \<open>
  One round of the loop over the releases: the nodes added to \<^verbatim>\<open>result\<close> and the
  release as the round leaves it. The bullet list is appended to the first node of the
  release object's own \<^verbatim>\<open>nodelist\<close>.
\<close>

definition assemble_release :: "release_dict \<Rightarrow> error + node list \<times> release_dict" where
  "assemble_release d =
     (if entries d = [] then Inr ([], d)
      else (case list_items (entries d) of
              Inl e \<Rightarrow> Inl e
            | Inr items \<Rightarrow>
                (case release_nodelist (obj d) of
                   [] \<Rightarrow> Inl IndexError
                 | n # ns \<Rightarrow>
                     (case append_child n (Elem ''bullet_list'' [] items) of
                        Inl e \<Rightarrow> Inl e
                      | Inr n' \<Rightarrow>
                          Inr (n' # ns,
                               d\<lparr>obj := Release (release_number (obj d)) (date (obj d))
                                           (n' # ns)\<rparr>)))))"

fun assemble :: "release_dict list \<Rightarrow> error + node list \<times> release_dict list" where
  "assemble [] = Inr ([], [])"
| "assemble (d # ds) =
     (case assemble_release d of
        Inl e \<Rightarrow> Inl e
      | Inr (ns, d') \<Rightarrow>
          (case assemble ds of
             Inl e \<Rightarrow> Inl e
           | Inr (res, ds') \<Rightarrow> Inr (ns @ res, d' # ds')))"

text \<open>
  \<^verbatim>\<open>construct_nodes\<close> returns \<^verbatim>\<open>result\<close>; the second component is the list
  \<^verbatim>\<open>releases\<close> as the call leaves it, in its own order.
\<close>

definition construct_nodes :: "release_dict list \<Rightarrow> error + node list \<times> release_dict list" where
  "construct_nodes rs =
     (case assemble (rev rs) of
        Inl e \<Rightarrow> Inl e
      | Inr (res, ds) \<Rightarrow> Inr (res, rev ds))"

section \<open>Notions used in the statements\<close>




text \<open>
  The substitution the description of an entry is meant to undergo: every issue node of
  the top level replaced, where it stands, by its own node list; nothing else changes and
  the inserted nodes are not looked at again.
\<close>

definition substitute_issue_roles :: "node list \<Rightarrow> node list" where
  "substitute_issue_roles desc =
     concat (map (\<lambda>n. case n of IssueN x cs \<Rightarrow> nodelist x | _ \<Rightarrow> [n]) desc)"

definition is_issue :: "node \<Rightarrow> bool" where
  "is_issue n = (case n of IssueN x cs \<Rightarrow> True | _ \<Rightarrow> False)"

text \<open>The release markers of a list of entries, in the order of the list.\<close>

definition release_markers :: "entry list \<Rightarrow> release list" where
  "release_markers es =
     List.map_filter (\<lambda>e. case fst e of ReleaseN r cs \<Rightarrow> Some r | _ \<Rightarrow> None) es"

section \<open>Example changelogs\<close>

text \<open>
  Issues and releases as the roles \<^verbatim>\<open>issues_role\<close> and \<^verbatim>\<open>release_role\<close> make
  them, for a configuration in the style of the comments of \<^verbatim>\<open>setup\<close>. Each stream
  below is written oldest entry first and reversed, since a changelog lists its newest
  entry first.
\<close>

definition example_config :: config where
  "example_config =
     \<lparr>releases_release_uri = (\<lambda>slug. ''https://github.com/fabric/fabric/tree/'' @ slug)\<rparr>"

definition issue_link :: "string \<Rightarrow> node" where
  "issue_link n =
     Elem ''reference'' [(''refuri'', ''https://github.com/fabric/fabric/issues/'' @ n)]
       [Text (''#'' @ n)]"

definition new_issue :: "string \<Rightarrow> itype \<Rightarrow> bool \<Rightarrow> bool \<Rightarrow> string option \<Rightarrow> issue" where
  "new_issue n t bp mj ml =
     Issue (Some n) t (issue_nodelist t (Some (issue_link n))) bp mj ml None"

definition issue_entry :: "issue \<Rightarrow> entry" where
  "issue_entry i = (IssueN i [], [Text '' Description of the change.''])"

definition stored :: "issue \<Rightarrow> issue" where
  "stored i = set_description i [Text '' Description of the change.'']"

definition new_release :: "string \<Rightarrow> string \<Rightarrow> release" where
  "new_release v d = Release v (Some d) [release_nodes v v (Some d) example_config]"

definition release_entry :: "release \<Rightarrow> node list \<Rightarrow> entry" where
  "release_entry r rest = (ReleaseN r [], rest)"

definition bug_1 :: issue where
  "bug_1 = new_issue ''1'' Bug False False None"

definition feature_2 :: issue where
  "feature_2 = new_issue ''2'' Feature False False None"

definition bug_3 :: issue where
  "bug_3 = new_issue ''3'' Bug False False (Some ''1.0'')"

definition bug_5 :: issue where
  "bug_5 = new_issue ''5'' Bug False False None"

definition bug_6 :: issue where
  "bug_6 = new_issue ''6'' Bug False False None"

definition scenario_1 :: "entry list" where
  "scenario_1 =
     rev [issue_entry bug_1, release_entry (new_release ''1.0'' ''2020-01-01'') []]"

definition scenario_2 :: "entry list" where
  "scenario_2 =
     rev [issue_entry feature_2, release_entry (new_release ''1.0'' ''2020-01-01'') []]"

definition scenario_3 :: "entry list" where
  "scenario_3 =
     rev [issue_entry feature_2, release_entry (new_release ''1.0'' ''2020-01-01'') [],
          issue_entry bug_3, release_entry (new_release ''1.0'' ''2020-02-01'') []]"

definition scenario_3_patch :: "entry list" where
  "scenario_3_patch =
     rev [issue_entry feature_2, release_entry (new_release ''1.0.0'' ''2020-01-01'') [],
          issue_entry bug_3, release_entry (new_release ''1.0.1'' ''2020-02-01'') []]"

definition scenario_4 :: "entry list" where
  "scenario_4 =
     rev [issue_entry bug_5, issue_entry bug_6,
          release_entry (new_release ''1.1'' ''2020-03-01'') [Text '' 6'']]"

definition first_explicit :: "entry list" where
  "first_explicit =
     rev [issue_entry bug_6,
          release_entry (new_release ''1.1.0'' ''2020-03-01'') [Text '' 6'']]"

definition released_twice :: "entry list" where
  "released_twice =
     rev [issue_entry feature_2, release_entry (new_release ''1.0.0'' ''2020-01-01'') [],
          release_entry (new_release ''1.0.1'' ''2020-02-01'') [Text '' 2'']]"

text \<open>What the walk over a changelog leaves: a bucket, and the releases made so far.\<close>

definition bucket_after :: "entry list \<Rightarrow> string \<Rightarrow> error + issue_ref list" where
  "bucket_after es k =
     (case run initial_state (chronological es) of
        Inl e \<Rightarrow> Inl e
      | Inr s \<Rightarrow> getitem (lines s) k)"

definition releases_after :: "entry list \<Rightarrow> error + release_dict list" where
  "releases_after es =
     (case run initial_state (chronological es) of
        Inl e \<Rightarrow> Inl e
      | Inr s \<Rightarrow> Inr (releases s))"

text \<open>The state of the walk after the feature 2 alone.\<close>

definition after_feature_2 :: state where
  "after_feature_2 =
     \<lparr>releases = [],
      lines = [(''unreleased_bugfix'', []), (''unreleased_feature'', [(0, stored feature_2)])],
      issues = [(Some ''2'', (0, stored feature_2))]\<rparr>"

text \<open>
  Descriptions that mention other issues with the issue roles, and a release with one
  entry as \<^verbatim>\<open>construct_releases\<close> makes it, with the section that
  \<^verbatim>\<open>construct_nodes\<close> turns its header into.
\<close>

definition one_reference :: "node list" where
  "one_reference = [Text '' Same fix as '', IssueN bug_5 [], Text ''.'']"

definition two_references :: "node list" where
  "two_references =
     [Text '' Same fix as '', IssueN bug_5 [], Text '' and '', IssueN bug_6 [], Text ''.'']"

definition release_1_0 :: release_dict where
  "release_1_0 =
     \<lparr>obj = new_release ''1.0'' ''2020-01-01'', entries = [(0, stored feature_2)]\<rparr>"

definition section_1_0 :: node where
  "section_1_0 =
     (case release_nodes ''1.0'' ''1.0'' (Some ''2020-01-01'') example_config of
        Elem tag attrs cs \<Rightarrow>
          Elem tag attrs
            (cs @ [Elem ''bullet_list'' []
                     [Elem ''list_item'' []
                        [Elem ''paragraph'' []
                           (nodelist feature_2 @ [Text '' Description of the change.''])]]])
      | n \<Rightarrow> n)"

definition release_1_0_assembled :: release_dict where
  "release_1_0_assembled =
     \<lparr>obj = Release ''1.0'' (Some ''2020-01-01'') [section_1_0],
      entries = [(0, stored feature_2)]\<rparr>"

definition release_1_1 :: release_dict where
  "release_1_1 = \<lparr>obj = new_release ''1.1.0'' ''2020-03-01'', entries = []\<rparr>"

text \<open>
  Notions for the invariants of the walk: a property that holds of every issue of every
  bucket other than \<^verbatim>\<open>unreleased_feature\<close>, and the issues that the copy into the
  buckets sends to other buckets than \<^verbatim>\<open>unreleased_feature\<close> (the bugs that are not
  major and the backported features and support items).
\<close>

definition within :: "(issue_ref \<Rightarrow> bool) \<Rightarrow> buckets \<Rightarrow> bool" where
  "within Q ls =
     (\<forall>kb\<in>set ls. fst kb \<noteq> ''unreleased_feature'' \<longrightarrow> (\<forall>x\<in>set (snd kb). Q x))"

definition to_lines :: "issue \<Rightarrow> bool" where
  "to_lines i = (if type i = Bug then \<not> major i else backported i)"

text \<open>A changelog with major bugs and a backported feature, and the state the walk reaches.\<close>

definition major_bug_4 :: issue where
  "major_bug_4 = new_issue ''4'' Bug False True None"

definition backported_7 :: issue where
  "backported_7 = new_issue ''7'' Feature True False None"

definition major_bug_8 :: issue where
  "major_bug_8 = new_issue ''8'' Bug False True None"

definition scenario_major :: "entry list" where
  "scenario_major =
     rev [issue_entry major_bug_4, issue_entry feature_2,
          release_entry (new_release ''1.0.0'' ''2020-01-01'') [],
          issue_entry bug_3, issue_entry backported_7, issue_entry major_bug_8]"

definition after_major :: state where
  "after_major =
     \<lparr>releases =
        [\<lparr>obj = new_release ''1.0.0'' ''2020-01-01'',
          entries = [(0, stored major_bug_4), (1, stored feature_2)]\<rparr>],
      lines =
        [(''unreleased_bugfix'', [(3, stored bug_3), (4, stored backported_7)]),
         (''unreleased_feature'', [(4, stored backported_7), (5, stored major_bug_8)]),
         (''1.0'', [(3, stored bug_3), (4, stored backported_7)])],
      issues =
        [(Some ''4'', (0, stored major_bug_4)), (Some ''2'', (1, stored feature_2)),
         (Some ''3'', (3, stored bug_3)), (Some ''7'', (4, stored backported_7)),
         (Some ''8'', (5, stored major_bug_8))]\<rparr>"

text \<open>A bucket of the given name exists.\<close>

definition has_key :: "string \<Rightarrow> buckets \<Rightarrow> bool" where
  "has_key k ls = (map_of ls k \<noteq> None)"












section \<open>Properties\<close>

subsection \<open>The scenarios of the specification\<close>

text \<open>
  Claim C1: the cleanup after an explicit release and after a bugfix release never raises
  when an issue is absent from a bucket or the bucket is missing. The code guards the
  removal from \<^verbatim>\<open>unreleased_bugfix\<close> and, for features, the lookup of the line bucket,
  but not the others. A bug listed by the first release of its line meets a missing line
  bucket (\<^verbatim>\<open>KeyError\<close>), and a feature that an earlier release has already taken out
  of \<^verbatim>\<open>unreleased_feature\<close> is removed from it unguarded (\<^verbatim>\<open>ValueError\<close>).
\<close>

theorem explicit_cleanup_raises:
  "construct_releases cfg first_explicit = Inl (KeyError ''1.1'') \<and>
   construct_releases cfg released_twice = Inl (ValueError ''list.remove(x): x not in list'')"
  by code_simp

text \<open>
  Claim C6: an explicit release raises exactly when a listed number is unknown. In the
  scenario of the specification, bugs 5 and 6 followed by the release 1.1 that lists 6,
  every listed number is known and the call still raises: the lookup of the bucket of
  line 1, which no earlier release has created, fails during the cleanup.
\<close>

theorem scenario_4_raises:
  "construct_releases cfg scenario_4 = Inl (KeyError ''1'')"
  by code_simp

text \<open>
  Claim C3, as the code has it: for bug 1 followed by the release 1.0 the walk makes one
  release, 1.0, with no entries; bug 1 stays in \<^verbatim>\<open>unreleased_bugfix\<close>; the line of the
  release is 1, and its bucket is created empty, after the bug was copied into the
  buckets that existed.
\<close>

theorem scenario_1_result:
  "run initial_state (chronological scenario_1) =
     Inr \<lparr>releases = [\<lparr>obj = new_release ''1.0'' ''2020-01-01'', entries = []\<rparr>],
          lines = [(''unreleased_bugfix'', [(0, stored bug_1)]),
                   (''unreleased_feature'', []),
                   (''1'', [])],
          issues = [(Some ''1'', (0, stored bug_1))]\<rparr>"
  by code_simp

text \<open>Claim C3 as stated fails: there is no bucket named 1.0, and bucket 1 is empty.\<close>

theorem scenario_1_no_bucket_1_0:
  "bucket_after scenario_1 ''1.0'' = Inl (KeyError ''1.0'') \<and>
   bucket_after scenario_1 ''1'' = Inr []"
  by code_simp

text \<open>
  Claim C5, as the code has it. The line of a release is its version without the last
  component. For two releases of line 1.0, namely 1.0.0 and 1.0.1, with bug 3 of minimum
  line 1.0 between them, the second release holds exactly bug 3, bucket 1.0 is empty
  afterwards and bug 3 has left \<^verbatim>\<open>unreleased_bugfix\<close>. With the versions 1.0 and 1.0
  the line is 1, which is below the minimum line 1.0: bug 3 never enters the line bucket,
  the second release is empty and bug 3 stays in \<^verbatim>\<open>unreleased_bugfix\<close>.
\<close>

theorem scenario_3_patch_result:
  "releases_after scenario_3_patch =
     Inr [\<lparr>obj = new_release ''1.0.0'' ''2020-01-01'', entries = [(0, stored feature_2)]\<rparr>,
          \<lparr>obj = new_release ''1.0.1'' ''2020-02-01'', entries = [(2, stored bug_3)]\<rparr>] \<and>
   bucket_after scenario_3_patch ''1.0'' = Inr [] \<and>
   bucket_after scenario_3_patch ''unreleased_bugfix'' = Inr [] \<and>
   releases_after scenario_3 =
     Inr [\<lparr>obj = new_release ''1.0'' ''2020-01-01'', entries = [(0, stored feature_2)]\<rparr>,
          \<lparr>obj = new_release ''1.0'' ''2020-02-01'', entries = []\<rparr>] \<and>
   bucket_after scenario_3 ''1'' = Inr [] \<and>
   bucket_after scenario_3 ''unreleased_bugfix'' = Inr [(2, stored bug_3)]"
  by code_simp

text \<open>
  Claim C5 as stated fails: the second release 1.0 of the stream is empty and bug 3 is
  still in \<^verbatim>\<open>unreleased_bugfix\<close>.
\<close>

theorem scenario_3_second_release_empty:
  "map entries (case releases_after scenario_3 of Inl e \<Rightarrow> [] | Inr rs \<Rightarrow> rs) =
     [[(0, stored feature_2)], []] \<and>
   bucket_after scenario_3 ''unreleased_bugfix'' = Inr [(2, stored bug_3)]"
  by code_simp

subsection \<open>Implicit release of a new line\<close>

lemma feature_or_major:
  "(type i = Feature \<or> type i = Support \<or> major i) =
   (type i = Feature \<or> type i = Support \<or> (type i = Bug \<and> major i))"
  by (cases "type i") auto

text \<open>
  Claim C4: an implicit release whose line is not yet a bucket takes the features, the
  support items and the major bugs of \<^verbatim>\<open>unreleased_feature\<close>, in the order of that
  bucket, creates the bucket of its line empty and empties \<^verbatim>\<open>unreleased_feature\<close>;
  every other bucket and the registry stay as they were.
\<close>

theorem implicit_new_line_release:
  assumes "map_of (lines s) (get_line focus) = None"
      and "map_of (lines s) ''unreleased_feature'' = Some uf"
  shows "\<exists>s'. process_entry s (ident, ReleaseN focus cs, []) = Inr s' \<and>
           releases s' = releases s @
             [\<lparr>obj = focus,
               entries = filter (\<lambda>x. type (snd x) = Feature \<or> type (snd x) = Support \<or>
                                      (type (snd x) = Bug \<and> major (snd x))) uf\<rparr>] \<and>
           map_of (lines s') (get_line focus) = Some [] \<and>
           map_of (lines s') ''unreleased_feature'' = Some [] \<and>
           (\<forall>k. k \<noteq> get_line focus \<and> k \<noteq> ''unreleased_feature'' \<longrightarrow>
                map_of (lines s') k = map_of (lines s) k) \<and>
           issues s' = issues s"
proof -
  from assms have ne: "get_line focus \<noteq> ''unreleased_feature''" by auto
  show ?thesis
    using assms ne
    by (simp add: process_entry_def process_release_def explicit_issues_def
        implicit_release_def getitem_def update_conv' feature_or_major)
qed

text \<open>
  The instance of the specification: after feature 2, the release 1.0 holds feature 2,
  the bucket of its line, named 1, is created empty, and \<^verbatim>\<open>unreleased_feature\<close> is
  emptied.
\<close>

theorem implicit_new_line_release_witness:
  "run initial_state (chronological [issue_entry feature_2]) = Inr after_feature_2 \<and>
   map_of (lines after_feature_2) (get_line (new_release ''1.0'' ''2020-01-01'')) = None \<and>
   map_of (lines after_feature_2) ''unreleased_feature'' = Some [(0, stored feature_2)] \<and>
   (\<exists>s'. process_entry after_feature_2 (1, release_entry (new_release ''1.0'' ''2020-01-01'') []) = Inr s' \<and>
         releases s' = [\<lparr>obj = new_release ''1.0'' ''2020-01-01'', entries = [(0, stored feature_2)]\<rparr>] \<and>
         map_of (lines s') ''1'' = Some [] \<and>
         map_of (lines s') ''unreleased_feature'' = Some [] \<and>
         map_of (lines s') ''unreleased_bugfix'' = Some [])"
proof -
  have r: "run initial_state (chronological [issue_entry feature_2]) = Inr after_feature_2"
    by code_simp
  have h1: "map_of (lines after_feature_2) (get_line (new_release ''1.0'' ''2020-01-01'')) = None"
    by code_simp
  have h2: "map_of (lines after_feature_2) ''unreleased_feature'' = Some [(0, stored feature_2)]"
    by code_simp
  have l: "get_line (new_release ''1.0'' ''2020-01-01'') = ''1''"
    by code_simp
  have f: "filter (\<lambda>x. type (snd x) = Feature \<or> type (snd x) = Support \<or>
                       (type (snd x) = Bug \<and> major (snd x))) [(0::nat, stored feature_2)]
           = [(0, stored feature_2)]"
    by code_simp
  have b: "map_of (lines after_feature_2) ''unreleased_bugfix'' = Some []"
    by code_simp
  have rs: "releases after_feature_2 = []"
    by code_simp
  from implicit_new_line_release [OF h1 h2, of 1 "[]"]
  obtain s' where s': "process_entry after_feature_2 (1, ReleaseN (new_release ''1.0'' ''2020-01-01'') [], []) = Inr s'"
    "releases s' = releases after_feature_2 @ [\<lparr>obj = new_release ''1.0'' ''2020-01-01'',
        entries = filter (\<lambda>x. type (snd x) = Feature \<or> type (snd x) = Support \<or>
                       (type (snd x) = Bug \<and> major (snd x))) [(0, stored feature_2)]\<rparr>]"
    "map_of (lines s') (get_line (new_release ''1.0'' ''2020-01-01'')) = Some []"
    "map_of (lines s') ''unreleased_feature'' = Some []"
    "\<forall>k. k \<noteq> get_line (new_release ''1.0'' ''2020-01-01'') \<and> k \<noteq> ''unreleased_feature'' \<longrightarrow>
                map_of (lines s') k = map_of (lines after_feature_2) k"
    by blast
  from s'(5) have "map_of (lines s') ''unreleased_bugfix'' = map_of (lines after_feature_2) ''unreleased_bugfix''"
    by (simp add: l)
  with b have b': "map_of (lines s') ''unreleased_bugfix'' = Some []" by simp
  from s'(2) have rel: "releases s' =
      [\<lparr>obj = new_release ''1.0'' ''2020-01-01'', entries = [(0, stored feature_2)]\<rparr>]"
    by (simp only: f rs append_Nil)
  from s'(3) have ln: "map_of (lines s') ''1'' = Some []"
    by (simp only: l)
  from s'(1) rel ln s'(4) b' have
    "\<exists>s'. process_entry after_feature_2 (1, release_entry (new_release ''1.0'' ''2020-01-01'') []) = Inr s' \<and>
         releases s' = [\<lparr>obj = new_release ''1.0'' ''2020-01-01'', entries = [(0, stored feature_2)]\<rparr>] \<and>
         map_of (lines s') ''1'' = Some [] \<and>
         map_of (lines s') ''unreleased_feature'' = Some [] \<and>
         map_of (lines s') ''unreleased_bugfix'' = Some []"
    unfolding release_entry_def by blast
  with r h1 h2 show ?thesis by blast
qed

text \<open>Claim C4 as stated fails in its instance: no bucket named 1.0 is created.\<close>

theorem scenario_2_no_bucket_1_0:
  "bucket_after scenario_2 ''1.0'' = Inl (KeyError ''1.0'') \<and>
   bucket_after scenario_2 ''1'' = Inr []"
  by code_simp

subsection \<open>Assembly of the output\<close>

text \<open>
  Claim C7: every issue role of a description is replaced, where it stands, by the node
  list of its issue, whatever the number of roles. The loop enumerates a copy of the
  description and assigns to the slice at the index of the copy, so after the first
  replacement, which lengthens the list by three, the index of a later role is no longer
  its position: the second replacement overwrites a node of the first and the second
  issue node stays in the paragraph.
\<close>

theorem two_references_not_expanded:
  "list_item (0, set_description bug_1 two_references) =
     Inr (Elem ''list_item'' []
            [Elem ''paragraph'' []
               (nodelist bug_1 @
                [Text '' Same fix as ''] @ take 2 (nodelist bug_5) @ nodelist bug_6 @
                drop 3 (nodelist bug_5) @ [Text '' and '', IssueN bug_6 [], Text ''.''])]) \<and>
   substitute_issue_roles two_references =
     [Text '' Same fix as ''] @ nodelist bug_5 @ [Text '' and ''] @ nodelist bug_6 @ [Text ''.''] \<and>
   expand (map deepcopy two_references) \<noteq> substitute_issue_roles two_references"
  by code_simp

text \<open>
  Claim C8 as stated fails: \<^verbatim>\<open>construct_nodes\<close> appends the bullet list of a release
  to the first node of the release object's own node list, so the object is not what it
  was before the call.
\<close>

theorem release_nodelist_mutated:
  "construct_nodes [release_1_0] =
     Inr ([section_1_0],
          [\<lparr>obj = Release ''1.0'' (Some ''2020-01-01'') [section_1_0],
            entries = [(0, stored feature_2)]\<rparr>]) \<and>
   release_nodelist (obj release_1_0) =
     [release_nodes ''1.0'' ''1.0'' (Some ''2020-01-01'') example_config] \<and>
   section_1_0 \<noteq> release_nodes ''1.0'' ''1.0'' (Some ''2020-01-01'') example_config"
  by code_simp

lemma assemble_release_frame:
  assumes "assemble_release d = Inr (ns, d')"
  shows "entries d' = entries d \<and>
         release_number (obj d') = release_number (obj d) \<and>
         date (obj d') = date (obj d) \<and>
         (if entries d = [] then d' = d
          else (case release_nodelist (obj d) of
                  [] \<Rightarrow> False
                | n # rest \<Rightarrow>
                    (case list_items (entries d) of
                       Inl e \<Rightarrow> False
                     | Inr items \<Rightarrow>
                         append_child n (Elem ''bullet_list'' [] items) =
                           Inr (hd (release_nodelist (obj d'))) \<and>
                         tl (release_nodelist (obj d')) = rest)))"
  using assms
  by (auto simp: assemble_release_def split: if_splits sum.splits list.splits)

lemma assemble_frame:
  "assemble ds = Inr (res, ds') \<Longrightarrow>
   list_all2 (\<lambda>d d'. assemble_release d = Inr (release_nodelist (obj d'), d') \<or>
                      (entries d = [] \<and> d' = d)) ds ds'"
proof (induction ds arbitrary: res ds')
  case Nil
  then show ?case by simp
next
  case (Cons d ds)
  then show ?case
    by (auto simp: assemble_release_def split: sum.splits prod.splits if_splits list.splits)
qed

text \<open>
  Claim C8, as the code has it: \<^verbatim>\<open>construct_nodes\<close> leaves the entry list of every
  release, the issues in it and the number and date of the release object as they were,
  and a release without entries wholly so. For a release with entries, the first node of
  the node list of its release object gets the bullet list of the entries as a new last
  child (the list is inserted into the section that heads the release); the other nodes
  of that node list stay as they were.
\<close>

theorem construct_nodes_frame:
  assumes "construct_nodes rs = Inr (res, rs')"
  shows "list_all2
           (\<lambda>d d'. entries d' = entries d \<and>
                    release_number (obj d') = release_number (obj d) \<and>
                    date (obj d') = date (obj d) \<and>
                    (if entries d = [] then d' = d
                     else (case release_nodelist (obj d) of
                             [] \<Rightarrow> False
                           | n # rest \<Rightarrow>
                               (case list_items (entries d) of
                                  Inl e \<Rightarrow> False
                                | Inr items \<Rightarrow>
                                    append_child n (Elem ''bullet_list'' [] items) =
                                      Inr (hd (release_nodelist (obj d'))) \<and>
                                    tl (release_nodelist (obj d')) = rest))))
           rs rs'"
proof -
  from assms obtain ds where a: "assemble (rev rs) = Inr (res, ds)" and r: "rs' = rev ds"
    by (auto simp: construct_nodes_def split: sum.splits prod.splits)
  have "list_all2 (\<lambda>d d'. assemble_release d = Inr (release_nodelist (obj d'), d') \<or>
                      (entries d = [] \<and> d' = d)) (rev rs) ds"
    using assemble_frame [OF a] .
  then have "list_all2 (\<lambda>d d'. assemble_release d = Inr (release_nodelist (obj d'), d') \<or>
                      (entries d = [] \<and> d' = d)) (rev (rev rs)) (rev ds)"
    by (simp only: list_all2_rev)
  then have l: "list_all2 (\<lambda>d d'. assemble_release d = Inr (release_nodelist (obj d'), d') \<or>
                      (entries d = [] \<and> d' = d)) rs rs'"
    by (simp add: r)
  show ?thesis
  proof (rule list_all2_mono [OF l])
    fix d d'
    assume "assemble_release d = Inr (release_nodelist (obj d'), d') \<or> (entries d = [] \<and> d' = d)"
    then show "entries d' = entries d \<and>
                    release_number (obj d') = release_number (obj d) \<and>
                    date (obj d') = date (obj d) \<and>
                    (if entries d = [] then d' = d
                     else (case release_nodelist (obj d) of
                             [] \<Rightarrow> False
                           | n # rest \<Rightarrow>
                               (case list_items (entries d) of
                                  Inl e \<Rightarrow> False
                                | Inr items \<Rightarrow>
                                    append_child n (Elem ''bullet_list'' [] items) =
                                      Inr (hd (release_nodelist (obj d'))) \<and>
                                    tl (release_nodelist (obj d')) = rest)))"
      using assemble_release_frame by fastforce
  qed
qed

theorem construct_nodes_frame_witness:
  "construct_nodes [release_1_0, release_1_1] =
     Inr ([section_1_0], [release_1_0_assembled, release_1_1]) \<and>
   list_all2
     (\<lambda>d d'. entries d' = entries d \<and>
              release_number (obj d') = release_number (obj d) \<and>
              date (obj d') = date (obj d) \<and>
              (if entries d = [] then d' = d
               else (case release_nodelist (obj d) of
                       [] \<Rightarrow> False
                     | n # rest \<Rightarrow>
                         (case list_items (entries d) of
                            Inl e \<Rightarrow> False
                          | Inr items \<Rightarrow>
                              append_child n (Elem ''bullet_list'' [] items) =
                                Inr (hd (release_nodelist (obj d'))) \<and>
                              tl (release_nodelist (obj d')) = rest))))
     [release_1_0, release_1_1] [release_1_0_assembled, release_1_1]"
proof -
  have h: "construct_nodes [release_1_0, release_1_1] =
             Inr ([section_1_0], [release_1_0_assembled, release_1_1])"
    by code_simp
  from h construct_nodes_frame [OF h] show ?thesis
    by (rule conjI)
qed

subsection \<open>Invariants of the buckets\<close>

lemma getitem_Inr: "getitem d k = Inr v \<longleftrightarrow> map_of d k = Some v"
  by (simp add: getitem_def split: option.splits)

lemma set_update_subset: "set (AList.update k v al) \<subseteq> insert (k, v) (set al)"
  by (induction al) auto

lemma keys_update: "fst ` set al \<subseteq> fst ` set (AList.update k v al)"
  by (auto simp: dom_update)

lemma list_remove_subset: "list_remove x b = Inr b' \<Longrightarrow> set b' \<subseteq> set b"
  by (induction b arbitrary: b') (auto split: if_splits sum.splits)

lemma within_lookup:
  "within Q ls \<Longrightarrow> map_of ls k = Some b \<Longrightarrow> k \<noteq> ''unreleased_feature'' \<Longrightarrow> y \<in> set b \<Longrightarrow> Q y"
  by (auto simp: within_def dest!: map_of_SomeD)

lemma within_update:
  assumes "within Q ls" and "k \<noteq> ''unreleased_feature'' \<Longrightarrow> \<forall>x\<in>set v. Q x"
  shows "within Q (AList.update k v ls)"
  unfolding within_def
proof (intro ballI impI)
  fix kb x
  assume kb: "kb \<in> set (AList.update k v ls)" and ne: "fst kb \<noteq> ''unreleased_feature''"
    and x: "x \<in> set (snd kb)"
  from kb set_update_subset have "kb = (k, v) \<or> kb \<in> set ls" by fastforce
  then show "Q x"
  proof
    assume "kb = (k, v)"
    with assms(2) ne x show ?thesis by auto
  next
    assume "kb \<in> set ls"
    with assms(1) ne x show ?thesis by (auto simp: within_def)
  qed
qed

lemma within_append_to:
  assumes "append_to k x ls = Inr ls'" and "within Q ls"
      and "k \<noteq> ''unreleased_feature'' \<Longrightarrow> Q x"
  shows "within Q ls'"
proof -
  from assms(1) obtain b where b: "map_of ls k = Some b" and l: "ls' = AList.update k (b @ [x]) ls"
    by (auto simp: append_to_def getitem_def split: option.splits)
  show ?thesis unfolding l
  proof (rule within_update [OF assms(2)])
    assume ne: "k \<noteq> ''unreleased_feature''"
    with within_lookup [OF assms(2) b] assms(3) show "\<forall>y\<in>set (b @ [x]). Q y" by auto
  qed
qed

lemma within_remove_from:
  assumes "remove_from k x ls = Inr ls'" and "within Q ls"
  shows "within Q ls'"
proof -
  from assms(1) obtain b b' where b: "map_of ls k = Some b" and r: "list_remove x b = Inr b'"
    and l: "ls' = AList.update k b' ls"
    by (auto simp: remove_from_def getitem_def split: option.splits sum.splits)
  show ?thesis unfolding l
  proof (rule within_update [OF assms(2)])
    assume ne: "k \<noteq> ''unreleased_feature''"
    with within_lookup [OF assms(2) b] list_remove_subset [OF r] show "\<forall>y\<in>set b'. Q y" by auto
  qed
qed

lemma within_append_all:
  "append_all ks x ls = Inr ls' \<Longrightarrow> within Q ls \<Longrightarrow> Q x \<Longrightarrow> within Q ls'"
proof (induction ks arbitrary: ls)
  case Nil
  then show ?case by simp
next
  case (Cons k ks)
  from Cons.prems(1) obtain l1 where a: "append_to k x ls = Inr l1" and r: "append_all ks x l1 = Inr ls'"
    by (auto split: sum.splits)
  from within_append_to [OF a Cons.prems(2)] Cons.prems(3) have "within Q l1" by simp
  from Cons.IH [OF r this Cons.prems(3)] show ?case .
qed

lemma within_cleanup_explicit:
  "cleanup_explicit ln x ls = Inr ls' \<Longrightarrow> within Q ls \<Longrightarrow> within Q ls'"
  by (auto simp: cleanup_explicit_def split: if_splits sum.splits
      intro: within_remove_from)

lemma within_cleanup_all:
  "cleanup_all ln xs ls = Inr ls' \<Longrightarrow> within Q ls \<Longrightarrow> within Q ls'"
  by (induction xs arbitrary: ls) (auto split: sum.splits intro: within_cleanup_explicit)

lemma within_cleanup_bugfix:
  "cleanup_bugfix xs ls = Inr ls' \<Longrightarrow> within Q ls \<Longrightarrow> within Q ls'"
  by (induction xs arbitrary: ls) (auto split: sum.splits if_splits intro: within_remove_from)

lemma within_process_release:
  assumes "process_release s r rest = Inr s'" and "within Q (lines s)"
  shows "within Q (lines s')"
proof -
  have e: "\<And>ex. explicit_release s r (get_line r) ex = Inr s' \<Longrightarrow> within Q (lines s')"
    using assms(2)
    by (auto simp: explicit_release_def Let_def split: if_splits sum.splits
        intro: within_cleanup_all)
  have i: "implicit_release s r (get_line r) = Inr s' \<Longrightarrow> within Q (lines s')"
    using assms(2)
    by (auto simp: implicit_release_def Let_def split: if_splits sum.splits
        intro!: within_update intro: within_cleanup_bugfix)
  from assms(1) e i show ?thesis
    by (auto simp: process_release_def Let_def split: sum.splits option.splits if_splits)
qed

lemma within_fan_out:
  assumes "fan_out x ls = Inr ls'" and "within Q ls" and "to_lines (snd x) \<Longrightarrow> Q x"
  shows "within Q ls'"
  using assms
  by (auto simp: fan_out_def to_lines_def split: if_splits sum.splits
      intro: within_append_to within_append_all)

lemma within_add_issue:
  assumes "add_issue s x = Inr s'" and "within Q (lines s)" and "to_lines (snd x) \<Longrightarrow> Q x"
  shows "within Q (lines s')"
  using assms
  by (auto simp: add_issue_def Let_def split: if_splits sum.splits intro: within_fan_out)

lemma within_process_entry_to_lines:
  assumes "process_entry s e = Inr s'" and "within (\<lambda>x. to_lines (snd x)) (lines s)"
  shows "within (\<lambda>x. to_lines (snd x)) (lines s')"
  using assms
  by (auto simp: process_entry_def split: prod.splits node.splits
      intro: within_process_release within_add_issue)

lemma within_process_entry_minor:
  assumes "process_entry s (j, f, r) = Inr s'" and "within (\<lambda>x. \<not> major (snd x)) (lines s)"
      and "\<And>i cs. f = IssueN i cs \<Longrightarrow> \<not> (backported i \<and> major i)"
  shows "within (\<lambda>x. \<not> major (snd x)) (lines s')"
proof (cases f)
  case (ReleaseN rr cs)
  with assms(1,2) show ?thesis
    by (auto simp: process_entry_def intro: within_process_release)
next
  case (IssueN i cs)
  with assms(1) have a: "add_issue s (j, set_description i r) = Inr s'"
    by (simp add: process_entry_def)
  from assms(3) [OF IssueN] have "to_lines (snd (j, set_description i r)) \<Longrightarrow>
      \<not> major (snd (j, set_description i r))"
    by (auto simp: to_lines_def set_description_def split: if_splits)
  from within_add_issue [OF a assms(2) this] show ?thesis .
next
  case (Text t)
  with assms(1) have a: "add_issue s (j, Issue None Bug (issue_nodelist Bug None) False False
      None (Some [f])) = Inr s'"
    by (simp add: process_entry_def)
  from within_add_issue [OF a assms(2)] show ?thesis by simp
next
  case (Elem t at cs)
  with assms(1) have a: "add_issue s (j, Issue None Bug (issue_nodelist Bug None) False False
      None (Some [f])) = Inr s'"
    by (simp add: process_entry_def)
  from within_add_issue [OF a assms(2)] show ?thesis by simp
qed

lemma within_run_to_lines:
  "run s ps = Inr s' \<Longrightarrow> within (\<lambda>x. to_lines (snd x)) (lines s) \<Longrightarrow>
   within (\<lambda>x. to_lines (snd x)) (lines s')"
proof (induction ps arbitrary: s)
  case Nil
  then show ?case by simp
next
  case (Cons p ps)
  from Cons.prems(1) obtain s1 where p: "process_entry s p = Inr s1" and r: "run s1 ps = Inr s'"
    by (auto split: sum.splits)
  from Cons.IH [OF r within_process_entry_to_lines [OF p Cons.prems(2)]] show ?case .
qed

lemma within_run_minor:
  "run s ps = Inr s' \<Longrightarrow> within (\<lambda>x. \<not> major (snd x)) (lines s) \<Longrightarrow>
   (\<And>j i cs r. (j, IssueN i cs, r) \<in> set ps \<Longrightarrow> \<not> (backported i \<and> major i)) \<Longrightarrow>
   within (\<lambda>x. \<not> major (snd x)) (lines s')"
proof (induction ps arbitrary: s)
  case Nil
  then show ?case by simp
next
  case (Cons p ps)
  obtain j f r where pe: "p = (j, f, r)" by (cases p) auto
  from Cons.prems(1) obtain s1 where p: "process_entry s (j, f, r) = Inr s1"
    and r: "run s1 ps = Inr s'"
    by (auto simp: pe split: sum.splits)
  have "\<And>i cs. f = IssueN i cs \<Longrightarrow> \<not> (backported i \<and> major i)"
  proof -
    fix i cs
    assume "f = IssueN i cs"
    then have "(j, IssueN i cs, r) \<in> set (p # ps)" by (simp add: pe)
    then show "\<not> (backported i \<and> major i)" by (rule Cons.prems(3))
  qed
  from within_process_entry_minor [OF p Cons.prems(2) this] have w: "within (\<lambda>x. \<not> major (snd x)) (lines s1)" .
  show ?case
  proof (rule Cons.IH [OF r w])
    fix j i cs r
    assume "(j, IssueN i cs, r) \<in> set ps"
    then show "\<not> (backported i \<and> major i)" using Cons.prems(3) [of j i cs r] by simp
  qed
qed

lemma within_initial: "within Q (lines initial_state)"
  by (simp add: within_def initial_state_def)

lemma chronological_entries:
  "(j, e) \<in> set (take n (chronological es)) \<Longrightarrow> e \<in> set es"
proof -
  assume "(j, e) \<in> set (take n (chronological es))"
  then have "(j, e) \<in> set (List.enumerate 0 (rev es))"
    unfolding chronological_def by (rule in_set_takeD)
  then have "j < length (rev es)" and "e = rev es ! j"
    by (auto simp: in_set_enumerate_eq)
  with nth_mem [of j "rev es"] show ?thesis by simp
qed

text \<open>
  Claim C10: at every point of the walk, that is after any number of entries, no bucket
  other than \<^verbatim>\<open>unreleased_feature\<close> holds a major bug. The buckets of the lines and
  \<^verbatim>\<open>unreleased_bugfix\<close> hold bugs that are not major and backported features and
  support items; as \<^verbatim>\<open>issues_role\<close> sets \<^verbatim>\<open>backported\<close> and \<^verbatim>\<open>major\<close>
  from the same word, no issue it makes has both, and then the filter
  \<^verbatim>\<open>not x.major\<close> of a bugfix release keeps the whole bucket.
\<close>

theorem major_bugs_only_in_unreleased_feature:
  assumes "run initial_state (take n (chronological es)) = Inr s"
      and "map_of (lines s) k = Some b" and "k \<noteq> ''unreleased_feature''"
  shows "(\<forall>x\<in>set b. \<not> (type (snd x) = Bug \<and> major (snd x))) \<and>
         ((\<forall>i cs r. (IssueN i cs, r) \<in> set es \<longrightarrow> \<not> (backported i \<and> major i)) \<longrightarrow>
            filter (\<lambda>x. \<not> major (snd x)) b = b)"
proof (intro conjI impI)
  from within_run_to_lines [OF assms(1) within_initial]
  have "within (\<lambda>x. to_lines (snd x)) (lines s)" .
  from within_lookup [OF this assms(2,3)]
  show "\<forall>x\<in>set b. \<not> (type (snd x) = Bug \<and> major (snd x))"
    by (auto simp: to_lines_def split: if_splits)
next
  assume wf: "\<forall>i cs r. (IssueN i cs, r) \<in> set es \<longrightarrow> \<not> (backported i \<and> major i)"
  have "within (\<lambda>x. \<not> major (snd x)) (lines s)"
  proof (rule within_run_minor [OF assms(1) within_initial])
    fix j i cs r
    assume "(j, IssueN i cs, r) \<in> set (take n (chronological es))"
    from chronological_entries [OF this] wf show "\<not> (backported i \<and> major i)" by blast
  qed
  from within_lookup [OF this assms(2,3)] show "filter (\<lambda>x. \<not> major (snd x)) b = b"
    by (simp add: filter_id_conv)
qed

theorem major_bugs_only_in_unreleased_feature_witness:
  "run initial_state (take 6 (chronological scenario_major)) = Inr after_major \<and>
   map_of (lines after_major) ''1.0'' = Some [(3, stored bug_3), (4, stored backported_7)] \<and>
   ''1.0'' \<noteq> ''unreleased_feature'' \<and>
   \<not> (type (stored bug_3) = Bug \<and> major (stored bug_3)) \<and>
   \<not> (type (stored backported_7) = Bug \<and> major (stored backported_7)) \<and>
   filter (\<lambda>x. \<not> major (snd x)) [(3 :: nat, stored bug_3), (4, stored backported_7)] =
     [(3, stored bug_3), (4, stored backported_7)]"
proof -
  have h1: "run initial_state (take 6 (chronological scenario_major)) = Inr after_major"
    by code_simp
  have h2: "map_of (lines after_major) ''1.0'' = Some [(3, stored bug_3), (4, stored backported_7)]"
    by code_simp
  have h3: "''1.0'' \<noteq> ''unreleased_feature''"
    by simp
  have wf: "\<forall>i cs r. (IssueN i cs, r) \<in> set scenario_major \<longrightarrow> \<not> (backported i \<and> major i)"
    by (auto simp: scenario_major_def issue_entry_def release_entry_def new_issue_def
        major_bug_4_def feature_2_def bug_3_def backported_7_def major_bug_8_def)
  from major_bugs_only_in_unreleased_feature [OF h1 h2 h3] wf
  have "(\<forall>x\<in>set [(3 :: nat, stored bug_3), (4, stored backported_7)].
           \<not> (type (snd x) = Bug \<and> major (snd x))) \<and>
        filter (\<lambda>x. \<not> major (snd x)) [(3 :: nat, stored bug_3), (4, stored backported_7)] =
          [(3, stored bug_3), (4, stored backported_7)]"
    by blast
  then have "\<not> (type (stored bug_3) = Bug \<and> major (stored bug_3))"
    and "\<not> (type (stored backported_7) = Bug \<and> major (stored backported_7))"
    and "filter (\<lambda>x. \<not> major (snd x)) [(3 :: nat, stored bug_3), (4, stored backported_7)] =
          [(3, stored bug_3), (4, stored backported_7)]"
    by simp_all
  with h1 h2 h3 show ?thesis by blast
qed

subsection \<open>The last two releases\<close>

lemma has_key_update: "has_key k ls \<Longrightarrow> has_key k (AList.update k' v ls)"
  by (simp add: has_key_def update_conv')

lemma has_key_append_to: "append_to k' x ls = Inr ls' \<Longrightarrow> has_key k ls \<Longrightarrow> has_key k ls'"
  by (auto simp: append_to_def split: sum.splits intro: has_key_update)

lemma has_key_remove_from: "remove_from k' x ls = Inr ls' \<Longrightarrow> has_key k ls \<Longrightarrow> has_key k ls'"
  by (auto simp: remove_from_def split: sum.splits intro: has_key_update)

lemma has_key_append_all: "append_all ks x ls = Inr ls' \<Longrightarrow> has_key k ls \<Longrightarrow> has_key k ls'"
proof (induction ks arbitrary: ls)
  case Nil
  then show ?case by simp
next
  case (Cons k' ks)
  from Cons.prems(1) obtain l1 where a: "append_to k' x ls = Inr l1" and r: "append_all ks x l1 = Inr ls'"
    by (auto split: sum.splits)
  from Cons.IH [OF r has_key_append_to [OF a Cons.prems(2)]] show ?case .
qed

lemma has_key_cleanup_explicit:
  "cleanup_explicit ln x ls = Inr ls' \<Longrightarrow> has_key k ls \<Longrightarrow> has_key k ls'"
  by (auto simp: cleanup_explicit_def split: if_splits sum.splits
      intro: has_key_remove_from)

lemma has_key_cleanup_all:
  "cleanup_all ln xs ls = Inr ls' \<Longrightarrow> has_key k ls \<Longrightarrow> has_key k ls'"
  by (induction xs arbitrary: ls) (auto split: sum.splits intro: has_key_cleanup_explicit)

lemma has_key_cleanup_bugfix:
  "cleanup_bugfix xs ls = Inr ls' \<Longrightarrow> has_key k ls \<Longrightarrow> has_key k ls'"
  by (induction xs arbitrary: ls) (auto split: sum.splits if_splits intro: has_key_remove_from)

lemma has_key_process_release:
  assumes "process_release s r rest = Inr s'" and "has_key k (lines s)"
  shows "has_key k (lines s')"
proof -
  have e: "\<And>ex. explicit_release s r (get_line r) ex = Inr s' \<Longrightarrow> has_key k (lines s')"
    using assms(2)
    by (auto simp: explicit_release_def Let_def split: if_splits sum.splits
        intro: has_key_cleanup_all)
  have i: "implicit_release s r (get_line r) = Inr s' \<Longrightarrow> has_key k (lines s')"
    using assms(2)
    by (auto simp: implicit_release_def Let_def split: if_splits sum.splits
        intro!: has_key_update intro: has_key_cleanup_bugfix)
  from assms(1) e i show ?thesis
    by (auto simp: process_release_def Let_def split: sum.splits option.splits if_splits)
qed

lemma has_key_fan_out: "fan_out x ls = Inr ls' \<Longrightarrow> has_key k ls \<Longrightarrow> has_key k ls'"
  by (auto simp: fan_out_def split: if_splits sum.splits
      intro: has_key_append_to has_key_append_all)

lemma has_key_add_issue:
  "add_issue s x = Inr s' \<Longrightarrow> has_key k (lines s) \<Longrightarrow> has_key k (lines s')"
  by (auto simp: add_issue_def Let_def split: if_splits sum.splits intro: has_key_fan_out)

lemma has_key_process_entry:
  "process_entry s e = Inr s' \<Longrightarrow> has_key k (lines s) \<Longrightarrow> has_key k (lines s')"
  by (auto simp: process_entry_def split: prod.splits node.splits
      intro: has_key_process_release has_key_add_issue)

lemma has_key_run: "run s ps = Inr s' \<Longrightarrow> has_key k (lines s) \<Longrightarrow> has_key k (lines s')"
proof (induction ps arbitrary: s)
  case Nil
  then show ?case by simp
next
  case (Cons p ps)
  from Cons.prems(1) obtain s1 where a: "process_entry s p = Inr s1" and r: "run s1 ps = Inr s'"
    by (auto split: sum.splits)
  from Cons.IH [OF r has_key_process_entry [OF a Cons.prems(2)]] show ?case .
qed

lemma releases_add_issue: "add_issue s x = Inr s' \<Longrightarrow> releases s' = releases s"
  by (auto simp: add_issue_def Let_def split: if_splits sum.splits)

lemma releases_process_release:
  "process_release s r rest = Inr s' \<Longrightarrow> map obj (releases s') = map obj (releases s) @ [r]"
  by (auto simp: process_release_def explicit_release_def implicit_release_def Let_def
      split: sum.splits option.splits if_splits)

lemma release_markers_append:
  "release_markers (xs @ ys) = release_markers xs @ release_markers ys"
  by (simp add: release_markers_def map_filter_def)

lemma release_markers_Nil: "release_markers [] = []"
  by (simp add: release_markers_def map_filter_def)

lemma releases_process_entry:
  "process_entry s p = Inr s' \<Longrightarrow>
   map obj (releases s') = map obj (releases s) @ release_markers [snd p]"
  by (auto simp: process_entry_def release_markers_def map_filter_simps
      split: prod.splits node.splits dest: releases_add_issue releases_process_release)

lemma releases_run:
  "run s ps = Inr s' \<Longrightarrow>
   map obj (releases s') = map obj (releases s) @ release_markers (map snd ps)"
proof (induction ps arbitrary: s)
  case Nil
  then show ?case by (simp add: release_markers_Nil)
next
  case (Cons p ps)
  then obtain s1 where a: "process_entry s p = Inr s1" and r: "run s1 ps = Inr s'"
    by (auto split: sum.splits)
  have "release_markers (map snd (p # ps)) = release_markers [snd p] @ release_markers (map snd ps)"
    using release_markers_append [of "[snd p]" "map snd ps"] by simp
  with releases_process_entry [OF a] Cons.IH [OF r] show ?case
    by simp
qed

lemma map_snd_chronological: "map snd (chronological es) = rev es"
  by (simp add: chronological_def enumerate_eq_zip)

text \<open>
  Claim C9: when the walk over the entries raises, so does \<^verbatim>\<open>construct_releases\<close>;
  otherwise it returns the releases of the walk, one for each release marker of the
  changelog in chronological order, followed by exactly two more: the release for
  \<^verbatim>\<open>unreleased_bugfix\<close> and then the one for \<^verbatim>\<open>unreleased_feature\<close>, each with
  a release object without a date and with the content of its bucket as entries. Both
  buckets exist at the end of every walk, so the two lookups never fail.
\<close>

theorem construct_releases_trailing:
  "(case run initial_state (chronological es) of
      Inl e \<Rightarrow> construct_releases cfg es = Inl e
    | Inr s \<Rightarrow>
        (\<exists>ub uf. map_of (lines s) ''unreleased_bugfix'' = Some ub \<and>
                 map_of (lines s) ''unreleased_feature'' = Some uf \<and>
                 construct_releases cfg es =
                   Inr (releases s @
                        [\<lparr>obj = Release ''unreleased_bugfix'' None
                                  [release_nodes ''Next bugfix release'' ''master'' None cfg],
                          entries = ub\<rparr>,
                         \<lparr>obj = Release ''unreleased_feature'' None
                                  [release_nodes ''Next feature release'' ''master'' None cfg],
                          entries = uf\<rparr>]) \<and>
                 map obj (releases s) = release_markers (rev es)))"
proof (cases "run initial_state (chronological es)")
  case (Inl e)
  then show ?thesis by (simp add: construct_releases_def)
next
  case (Inr s)
  have "has_key ''unreleased_bugfix'' (lines initial_state)"
    and "has_key ''unreleased_feature'' (lines initial_state)"
    by (simp_all add: has_key_def initial_state_def)
  then have "has_key ''unreleased_bugfix'' (lines s)" and "has_key ''unreleased_feature'' (lines s)"
    using has_key_run [OF Inr] by blast+
  then obtain ub uf where ub: "map_of (lines s) ''unreleased_bugfix'' = Some ub"
    and uf: "map_of (lines s) ''unreleased_feature'' = Some uf"
    by (auto simp: has_key_def)
  from releases_run [OF Inr] have m: "map obj (releases s) = release_markers (rev es)"
    by (simp add: map_snd_chronological initial_state_def)
  from Inr ub uf m show ?thesis
    by (simp add: construct_releases_def faux_release_def getitem_def)
qed

text \<open>The changelog of bug 1 and release 1.0: one release of its own and the two last ones.\<close>

theorem construct_releases_trailing_witness:
  "run initial_state (chronological scenario_1) =
     Inr \<lparr>releases = [\<lparr>obj = new_release ''1.0'' ''2020-01-01'', entries = []\<rparr>],
          lines = [(''unreleased_bugfix'', [(0, stored bug_1)]),
                   (''unreleased_feature'', []),
                   (''1'', [])],
          issues = [(Some ''1'', (0, stored bug_1))]\<rparr> \<and>
   construct_releases example_config scenario_1 =
     Inr [\<lparr>obj = new_release ''1.0'' ''2020-01-01'', entries = []\<rparr>,
          \<lparr>obj = Release ''unreleased_bugfix'' None
                   [release_nodes ''Next bugfix release'' ''master'' None example_config],
            entries = [(0, stored bug_1)]\<rparr>,
          \<lparr>obj = Release ''unreleased_feature'' None
                   [release_nodes ''Next feature release'' ''master'' None example_config],
            entries = []\<rparr>]"
proof -
  have h: "run initial_state (chronological scenario_1) =
     Inr \<lparr>releases = [\<lparr>obj = new_release ''1.0'' ''2020-01-01'', entries = []\<rparr>],
          lines = [(''unreleased_bugfix'', [(0, stored bug_1)]),
                   (''unreleased_feature'', []),
                   (''1'', [])],
          issues = [(Some ''1'', (0, stored bug_1))]\<rparr>"
    by code_simp
  from construct_releases_trailing [where es = scenario_1 and cfg = example_config] h show ?thesis
    by simp
qed

subsection \<open>Bugs with a minimum line\<close>









subsection \<open>What the code does achieve\<close>

text \<open>
  A deep copy has the value of the node it copies. A description with no issue role is
  left as it is, and one with a single issue role gets the substitution that is meant.
\<close>

lemma deepcopy_value: "deepcopy n = n"
  by (induction n rule: deepcopy.induct) (simp_all add: map_idI)

lemma expand_at_other: "\<not> is_issue n \<Longrightarrow> expand_at desc (i, n) = desc"
  by (cases n) (simp_all add: expand_at_def is_issue_def)

lemma foldl_expand_at_others:
  "\<not> list_ex is_issue ns \<Longrightarrow> foldl expand_at desc (List.enumerate k ns) = desc"
  by (induction ns arbitrary: k desc) (simp_all add: expand_at_other)

lemma expand_one_issue:
  assumes "\<not> list_ex is_issue pre" and "\<not> list_ex is_issue post"
  shows "expand (pre @ IssueN x cs # post) = pre @ nodelist x @ post"
proof -
  have e: "List.enumerate 0 (pre @ IssueN x cs # post) =
      List.enumerate 0 pre @ (length pre, IssueN x cs) # List.enumerate (Suc (length pre)) post"
    by (simp add: enumerate_append_eq)
  have "expand (pre @ IssueN x cs # post) =
      foldl expand_at (expand_at (pre @ IssueN x cs # post) (length pre, IssueN x cs))
        (List.enumerate (Suc (length pre)) post)"
    unfolding expand_def e by (simp add: foldl_expand_at_others [OF assms(1)])
  also have "expand_at (pre @ IssueN x cs # post) (length pre, IssueN x cs) =
      pre @ nodelist x @ post"
    by (simp add: expand_at_def)
  finally show ?thesis
    by (simp add: foldl_expand_at_others [OF assms(2)])
qed

lemma substitute_others: "\<not> list_ex is_issue ns \<Longrightarrow> substitute_issue_roles ns = ns"
  by (induction ns) (auto simp: substitute_issue_roles_def is_issue_def split: node.splits)

lemma expand_one_issue_substitutes:
  assumes "\<not> list_ex is_issue pre" and "\<not> list_ex is_issue post"
  shows "expand (map deepcopy (pre @ IssueN x cs # post)) =
         substitute_issue_roles (pre @ IssueN x cs # post)"
proof -
  have m: "map deepcopy (pre @ IssueN x cs # post) = pre @ IssueN x cs # post"
    by (simp add: deepcopy_value map_idI)
  have "substitute_issue_roles (pre @ IssueN x cs # post) =
      substitute_issue_roles pre @ nodelist x @ substitute_issue_roles post"
    by (simp add: substitute_issue_roles_def)
  with substitute_others [OF assms(1)] substitute_others [OF assms(2)]
    expand_one_issue [OF assms] m show ?thesis
    by simp
qed

lemma expand_no_issue: "\<not> list_ex is_issue ns \<Longrightarrow> expand ns = ns"
  unfolding expand_def by (rule foldl_expand_at_others)

lemma one_reference_expanded:
  "expand (map deepcopy one_reference) = substitute_issue_roles one_reference"
  by code_simp

text \<open>
  The removal of the entries of a bugfix release from \<^verbatim>\<open>unreleased_bugfix\<close> is
  guarded and never raises.
\<close>

lemma list_remove_contained:
  "contains x b \<Longrightarrow> \<exists>b'. list_remove x b = Inr b'"
proof (induction b)
  case Nil
  then show ?case by (simp add: contains_def)
next
  case (Cons y ys)
  show ?case
  proof (cases "fst y = fst x")
    case True
    then show ?thesis by simp
  next
    case False
    with Cons.prems have "contains x ys" by (auto simp: contains_def)
    from Cons.IH [OF this] obtain b' where "list_remove x ys = Inr b'" ..
    with False show ?thesis by simp
  qed
qed

lemma cleanup_bugfix_returns:
  "has_key ''unreleased_bugfix'' ls \<Longrightarrow> \<exists>ls'. cleanup_bugfix xs ls = Inr ls'"
proof (induction xs arbitrary: ls)
  case Nil
  then show ?case by simp
next
  case (Cons x xs)
  from Cons.prems obtain ub where ub: "map_of ls ''unreleased_bugfix'' = Some ub"
    by (auto simp: has_key_def)
  show ?case
  proof (cases "contains x ub")
    case True
    from list_remove_contained [OF True] obtain b' where b': "list_remove x ub = Inr b'" ..
    from Cons.prems have "has_key ''unreleased_bugfix'' (AList.update ''unreleased_bugfix'' b' ls)"
      by (rule has_key_update)
    from Cons.IH [OF this] ub b' True show ?thesis
      by (simp add: getitem_def remove_from_def)
  next
    case False
    with Cons.IH [OF Cons.prems] ub show ?thesis
      by (simp add: getitem_def)
  qed
qed

text \<open>
  An explicit release with an unknown number raises the error that lists all the unknown
  numbers; one that returns has found every number and holds the issues in the order of
  its list.
\<close>

lemma explicit_release_missing:
  assumes "filter (\<lambda>i. map_of (issues s) (Some i) = None) ex \<noteq> []"
  shows "explicit_release s r ln ex =
           Inl (ValueError (''Couldn't find issue(s) #''
                  @ join '', '' (filter (\<lambda>i. map_of (issues s) (Some i) = None) ex)
                  @ '' in the changelog!''))"
  using assms by (simp add: explicit_release_def)

lemma explicit_release_entries:
  assumes "explicit_release s r ln ex = Inr s'"
  shows "releases s' =
           releases s @ [\<lparr>obj = r, entries = map (\<lambda>i. the (map_of (issues s) (Some i))) ex\<rparr>] \<and>
         filter (\<lambda>i. map_of (issues s) (Some i) = None) ex = [] \<and>
         issues s' = issues s"
  using assms by (auto simp: explicit_release_def Let_def split: if_splits sum.splits)

subsection \<open>Dotted numeric versions\<close>











subsection \<open>The minimum line of a bug\<close>













lemma min_line_filter_raises:
  "x \<in> set xs \<Longrightarrow> x \<noteq> ''unreleased_bugfix'' \<Longrightarrow> LooseVersion_ge x m = Inl e \<Longrightarrow>
   \<exists>e'. min_line_filter m xs = Inl e'"
  by (induction xs) (auto split: sum.splits)




subsection \<open>White space around an issue number\<close>

lemma strip_no_break_space:
  "strip [CHR '' '', CHR ''6'', CHR 0xA0] = ''6'' \<and> strip [CHR 0x85, CHR ''6'', CHR 0x09] = ''6''"
  by code_simp

end
